theory Spec2Isabelle
  imports Complex_Main "HOL-Library.Word" "HOL-Library.Monad_Syntax"
begin

unbundle bit_operations_syntax

section \<open>Data model\<close>

text \<open>
  A C \<^verbatim>\<open>float\<close> or \<^verbatim>\<open>double\<close> object is given by its object representation: the 32
  or 64 bits of its storage, which on the platforms the program targets are the IEEE-754
  binary32 and binary64 encodings. The program never does arithmetic on the value; it only
  copies the storage into an unsigned integer of the same width.
\<close>

datatype c_float = Float (float_bits: "32 word")

datatype c_double = Double (double_bits: "64 word")

text \<open>
  The locals \<^verbatim>\<open>u\<close>, \<^verbatim>\<open>sign\<close>, \<^verbatim>\<open>exp\<close> and \<^verbatim>\<open>frac\<close> of \<^verbatim>\<open>decode_float\<close> and
  \<^verbatim>\<open>decode_double\<close>, all of the unsigned type of the format's width.
\<close>

record 'w FloatBits =
  raw :: 'w
  sign :: 'w
  exponent :: 'w
  fraction :: 'w

section \<open>Storage reinterpretation\<close>

text \<open>\<^verbatim>\<open>memcpy(&u, &f, sizeof u)\<close>: the integer receives the bytes of the float as they are.\<close>

fun float_to_u32 :: "c_float \<Rightarrow> 32 word" where
  "float_to_u32 (Float u) = u"

fun double_to_u64 :: "c_double \<Rightarrow> 64 word" where
  "double_to_u64 (Double u) = u"

section \<open>Field extraction\<close>

text \<open>
  C's \<^verbatim>\<open>x >> n\<close> on an unsigned operand is a logical shift when \<open>0 \<le> n < width\<close> and
  undefined otherwise; the undefined case is the value \<open>None\<close>.
\<close>

definition shr_u32 :: "32 word \<Rightarrow> int \<Rightarrow> 32 word option" where
  "shr_u32 x n = (if 0 \<le> n \<and> n < 32 then Some (drop_bit (nat n) x) else None)"

definition shr_u64 :: "64 word \<Rightarrow> int \<Rightarrow> 64 word option" where
  "shr_u64 x n = (if 0 \<le> n \<and> n < 64 then Some (drop_bit (nat n) x) else None)"

text \<open>The first four statements of \<^verbatim>\<open>decode_float\<close> and of \<^verbatim>\<open>decode_double\<close>.\<close>

definition decode_float_fields :: "c_float \<Rightarrow> 32 word FloatBits option" where
  "decode_float_fields f = do {
     let u = float_to_u32 f;
     s \<leftarrow> shr_u32 u 31;
     e \<leftarrow> shr_u32 u 23;
     Some \<lparr>raw = u, sign = s AND 1, exponent = e AND 0xFF, fraction = u AND 0x7FFFFF\<rparr>
   }"

definition decode_double_fields :: "c_double \<Rightarrow> 64 word FloatBits option" where
  "decode_double_fields d = do {
     let u = double_to_u64 d;
     s \<leftarrow> shr_u64 u 63;
     e \<leftarrow> shr_u64 u 52;
     Some \<lparr>raw = u, sign = s AND 1, exponent = e AND 0x7FF, fraction = u AND 0xFFFFFFFFFFFFF\<rparr>
   }"

section \<open>Standard streams and printf conversions\<close>

text \<open>
  The program's only effect is on standard output; standard input is in the state so that
  "reads no input" can be stated.
\<close>

record world =
  w_stdin :: string
  w_stdout :: string

definition emit :: "string \<Rightarrow> world \<Rightarrow> world" where
  "emit s w = w\<lparr>w_stdout := w_stdout w @ s\<rparr>"

definition putchar :: "char \<Rightarrow> world \<Rightarrow> world" where
  "putchar c w = emit [c] w"

definition puts :: "string \<Rightarrow> world \<Rightarrow> world" where
  "puts s w = emit (s @ ''\<newline>'') w"

definition digit_char :: "nat \<Rightarrow> char" where
  "digit_char d = ''0123456789ABCDEF'' ! d"

text \<open>The digits \<^verbatim>\<open>%u\<close> and \<^verbatim>\<open>%llu\<close> print: decimal, no leading zero, one digit for 0.\<close>

function fmt_u :: "nat \<Rightarrow> string" where
  "fmt_u n = (if n < 10 then [digit_char n] else fmt_u (n div 10) @ [digit_char (n mod 10)])"
  by pat_completeness auto
termination
  by (relation "measure (\<lambda>n. n)") auto

text \<open>The digits \<^verbatim>\<open>%X\<close> and \<^verbatim>\<open>%llX\<close> print: upper-case hexadecimal.\<close>

function hex_digits :: "nat \<Rightarrow> string" where
  "hex_digits n =
     (if n < 16 then [digit_char n] else hex_digits (n div 16) @ [digit_char (n mod 16)])"
  by pat_completeness auto
termination
  by (relation "measure (\<lambda>n. n)") auto

text \<open>\<^verbatim>\<open>%0wX\<close>: a minimum field width of \<open>w\<close>, filled with zeros on the left.\<close>

definition fmt_X :: "nat \<Rightarrow> nat \<Rightarrow> string" where
  "fmt_X w n = replicate (w - length (hex_digits n)) (CHR ''0'') @ hex_digits n"

text \<open>
  The conversions \<^verbatim>\<open>%.9g\<close> and \<^verbatim>\<open>%.17g\<close> of a floating-point argument are the C
  library's; the program is modelled for any such pair of renderings.
\<close>

record fp_format =
  fmt_g9 :: "c_float \<Rightarrow> string"
  fmt_g17 :: "c_double \<Rightarrow> string"

section \<open>Printing the bits\<close>

text \<open>
  The body of \<^verbatim>\<open>for (int i = 31; i >= 0; --i)\<close> from the value \<open>i\<close> of the loop variable
  on.
\<close>

function print_bits_u32_loop :: "32 word \<Rightarrow> int \<Rightarrow> world \<Rightarrow> world option" where
  "print_bits_u32_loop x i w =
     (if i \<ge> 0 then do {
        y \<leftarrow> shr_u32 x i;
        let w1 = putchar (if y AND 1 \<noteq> 0 then CHR ''1'' else CHR ''0'') w;
        let w2 = (if i = 31 \<or> i = 23 then putchar (CHR '' '') w1 else w1);
        print_bits_u32_loop x (i - 1) w2
      } else Some w)"
  by pat_completeness auto
termination
  by (relation "measure (\<lambda>(x, i, w). nat (i + 1))") auto

definition print_bits_u32 :: "32 word \<Rightarrow> world \<Rightarrow> world option" where
  "print_bits_u32 x w = print_bits_u32_loop x 31 w"

function print_bits_u64_loop :: "64 word \<Rightarrow> int \<Rightarrow> world \<Rightarrow> world option" where
  "print_bits_u64_loop x i w =
     (if i \<ge> 0 then do {
        y \<leftarrow> shr_u64 x i;
        let w1 = putchar (if y AND 1 \<noteq> 0 then CHR ''1'' else CHR ''0'') w;
        let w2 = (if i = 63 \<or> i = 52 then putchar (CHR '' '') w1 else w1);
        print_bits_u64_loop x (i - 1) w2
      } else Some w)"
  by pat_completeness auto
termination
  by (relation "measure (\<lambda>(x, i, w). nat (i + 1))") auto

definition print_bits_u64 :: "64 word \<Rightarrow> world \<Rightarrow> world option" where
  "print_bits_u64 x w = print_bits_u64_loop x 63 w"

section \<open>The decoders\<close>

definition decode_float :: "fp_format \<Rightarrow> c_float \<Rightarrow> world \<Rightarrow> world option" where
  "decode_float L f w = do {
     r \<leftarrow> decode_float_fields f;
     let w1 = emit (''float = '' @ fmt_g9 L f @ ''\<newline>'') w;
     let w2 = emit ''bits  = '' w1;
     w3 \<leftarrow> print_bits_u32 (raw r) w2;
     let w4 = putchar (CHR ''\<newline>'') w3;
     let w5 = emit (''sign  = '' @ fmt_u (unat (sign r)) @ ''\<newline>'') w4;
     let w6 = emit (''exp   = 0x'' @ fmt_X 2 (unat (exponent r)) @ '' (''
                @ fmt_u (unat (exponent r)) @ '')'' @ ''\<newline>'') w5;
     let w7 = emit (''frac  = 0x'' @ fmt_X 6 (unat (fraction r)) @ '' (''
                @ fmt_u (unat (fraction r)) @ '')'' @ ''\<newline>'') w6;
     Some w7
   }"

definition decode_double :: "fp_format \<Rightarrow> c_double \<Rightarrow> world \<Rightarrow> world option" where
  "decode_double L d w = do {
     r \<leftarrow> decode_double_fields d;
     let w1 = emit (''double = '' @ fmt_g17 L d @ ''\<newline>'') w;
     let w2 = emit ''bits   = '' w1;
     w3 \<leftarrow> print_bits_u64 (raw r) w2;
     let w4 = putchar (CHR ''\<newline>'') w3;
     let w5 = emit (''sign   = '' @ fmt_u (unat (sign r)) @ ''\<newline>'') w4;
     let w6 = emit (''exp    = 0x'' @ fmt_X 3 (unat (exponent r)) @ '' (''
                @ fmt_u (unat (exponent r)) @ '')'' @ ''\<newline>'') w5;
     let w7 = emit (''frac   = 0x'' @ fmt_X 13 (unat (fraction r)) @ ''\<newline>'') w6;
     Some w7
   }"

section \<open>The driver\<close>

text \<open>
  The four constants of \<^verbatim>\<open>main\<close> as the compiler stores them: \<^verbatim>\<open>5.0f\<close>, \<^verbatim>\<open>0.1f\<close>,
  \<^verbatim>\<open>0.1\<close> and \<^verbatim>\<open>-0.0f\<close>. That these encodings denote those numbers is proved below
  from the value formula of the repository's README.
\<close>

definition lit_5_0f :: c_float where
  "lit_5_0f = Float 0x40A00000"

definition lit_0_1f :: c_float where
  "lit_0_1f = Float 0x3DCCCCCD"

definition lit_0_1 :: c_double where
  "lit_0_1 = Double 0x3FB999999999999A"

definition lit_neg_0_0f :: c_float where
  "lit_neg_0_0f = Float 0x80000000"

definition main :: "fp_format \<Rightarrow> world \<Rightarrow> (int \<times> world) option" where
  "main L w = do {
     w1 \<leftarrow> decode_float L lit_5_0f w;
     let w2 = puts ''----'' w1;
     w3 \<leftarrow> decode_float L lit_0_1f w2;
     let w4 = puts ''----'' w3;
     w5 \<leftarrow> decode_double L lit_0_1 w4;
     let w6 = puts ''----'' w5;
     w7 \<leftarrow> decode_float L lit_neg_0_0f w6;
     Some (0, w7)
   }"

text \<open>
  For closed examples: the renderings of the four constants of \<^verbatim>\<open>main\<close> by a C library
  whose \<^verbatim>\<open>printf\<close> rounds correctly (\<^verbatim>\<open>%.9g\<close> of 5.0f, 0.1f and -0.0f, \<^verbatim>\<open>%.17g\<close> of
  0.1). No other value is rendered, and no statement depends on one.
\<close>

definition sample_renderings :: fp_format where
  "sample_renderings =
     \<lparr>fmt_g9 = (\<lambda>f. if f = lit_5_0f then ''5''
                   else if f = lit_0_1f then ''0.100000001''
                   else if f = lit_neg_0_0f then ''-0'' else []),
      fmt_g17 = (\<lambda>d. if d = lit_0_1 then ''0.10000000000000001'' else [])\<rparr>"

section \<open>The value an encoding denotes\<close>

text \<open>
  The repository's README (section Value) gives the number a finite encoding denotes:
  normalized \<open>x = (-1)^s * 2^(e - bias) * (1 + f)\<close>, subnormal
  \<open>x = (-1)^s * 2^(1 - bias) * f\<close>, with \<open>f = fraction / 2^p\<close>, \<open>bias = 127\<close> and
  \<open>p = 23\<close> for float, \<open>bias = 1023\<close> and \<open>p = 52\<close> for double. It is what ties the C
  constants \<^verbatim>\<open>5.0f\<close>, \<^verbatim>\<open>0.1f\<close>, \<^verbatim>\<open>0.1\<close> and the negation \<open>-x\<close> of the claims to bit
  patterns. The maximal exponent (infinities and NaNs) denotes no number.
\<close>

definition ieee_value :: "int \<Rightarrow> nat \<Rightarrow> nat \<Rightarrow> nat \<Rightarrow> nat \<Rightarrow> rat" where
  "ieee_value bias p s e f =
     (if e = 0 then (- 1) ^ s * 2 powi (1 - bias) * (of_nat f / 2 ^ p)
      else (- 1) ^ s * 2 powi (int e - bias) * (1 + of_nat f / 2 ^ p))"

definition float_value :: "c_float \<Rightarrow> rat option" where
  "float_value x = do {
     r \<leftarrow> decode_float_fields x;
     if exponent r = 0xFF then None
     else Some (ieee_value 127 23 (unat (sign r)) (unat (exponent r)) (unat (fraction r)))
   }"

definition double_value :: "c_double \<Rightarrow> rat option" where
  "double_value x = do {
     r \<leftarrow> decode_double_fields x;
     if exponent r = 0x7FF then None
     else Some (ieee_value 1023 52 (unat (sign r)) (unat (exponent r)) (unat (fraction r)))
   }"

text \<open>
  Auxiliary: the magnitude of a finite encoding as a multiple of the smallest subnormal,
  \<open>2^(1 - bias - p)\<close>.
\<close>

definition scaled_mag :: "nat \<Rightarrow> nat \<Rightarrow> nat \<Rightarrow> nat" where
  "scaled_mag p e f = (if e = 0 then f else 2 ^ (e - 1) * (2 ^ p + f))"

section \<open>Closed form of the printed bits\<close>

text \<open>
  Auxiliary: the text the loops of \<^verbatim>\<open>print_bits_u32\<close> and \<^verbatim>\<open>print_bits_u64\<close> append for
  the \<open>n\<close> low bits: most significant first, a space after bit \<open>s1\<close> and after bit \<open>s2\<close>.
\<close>

fun bits_text :: "nat \<Rightarrow> nat \<Rightarrow> 'a::len word \<Rightarrow> nat \<Rightarrow> string" where
  "bits_text s1 s2 x 0 = []"
| "bits_text s1 s2 x (Suc n) =
     (if bit x n then CHR ''1'' else CHR ''0'')
       # (if n = s1 \<or> n = s2 then '' '' else []) @ bits_text s1 s2 x n"

section \<open>The classification table of the specification\<close>

text \<open>
  Modelled from the spec: the classification table of its section 4.1 (and of the README's
  Special Values); the source has no classification code. Each row is the class with the
  condition on the exponent and fraction fields, for the maximal exponent \<open>emax\<close>.
\<close>

datatype fp_class = SignedZero | Subnormal | Normal | SignedInfinity | NaN

definition table_rows :: "nat \<Rightarrow> (fp_class \<times> (nat \<Rightarrow> nat \<Rightarrow> bool)) list" where
  "table_rows emax =
     [(SignedZero, \<lambda>e f. e = 0 \<and> f = 0),
      (Subnormal, \<lambda>e f. e = 0 \<and> f \<noteq> 0),
      (Normal, \<lambda>e f. 0 < e \<and> e < emax),
      (SignedInfinity, \<lambda>e f. e = emax \<and> f = 0),
      (NaN, \<lambda>e f. e = emax \<and> f \<noteq> 0)]"

definition rows_applying :: "nat \<Rightarrow> nat \<Rightarrow> nat \<Rightarrow> fp_class list" where
  "rows_applying emax e f = map fst (filter (\<lambda>row. snd row e f) (table_rows emax))"

text \<open>The table's names of the classes, and whether a text mentions a name.\<close>

fun class_label :: "fp_class \<Rightarrow> string" where
  "class_label SignedZero = ''signed zero''"
| "class_label Subnormal = ''subnormal''"
| "class_label Normal = ''normal''"
| "class_label SignedInfinity = ''signed infinity''"
| "class_label NaN = ''NaN''"

fun occurs_in :: "string \<Rightarrow> string \<Rightarrow> bool" where
  "occurs_in p [] = (p = [])"
| "occurs_in p (c # s) = (take (length p) (c # s) = p \<or> occurs_in p s)"

section \<open>Bit fields of a word\<close>

lemma field_bit_iff:
  "bit (drop_bit k u AND mask m :: 'a::len word) n \<longleftrightarrow> n < m \<and> bit u (k + n)"
  by (auto simp add: bit_and_iff bit_drop_bit_eq bit_mask_iff possible_bit_def ac_simps
      dest: bit_imp_le_length)

lemma low_field_bit_iff:
  "bit (u AND mask k :: 'a::len word) n \<longleftrightarrow> n < k \<and> bit u n"
  by (auto simp add: bit_and_iff bit_mask_iff possible_bit_def dest: bit_imp_le_length)

lemma unat_field:
  "unat (drop_bit k u AND mask m :: 'a::len word) = unat u div 2 ^ k mod 2 ^ m"
proof -
  have "unat (drop_bit k u AND mask m) = take_bit m (drop_bit k (unat u))"
    by (simp only: flip: take_bit_eq_mask)
      (simp add: unsigned_take_bit_eq unsigned_drop_bit_eq take_bit_nat_eq_self)
  then show ?thesis
    by (simp add: take_bit_eq_mod drop_bit_eq_div)
qed

lemma unat_low_field:
  "unat (u AND mask k :: 'a::len word) = unat u mod 2 ^ k"
  using unat_field [of 0 u k] by simp

lemma sign_bit_iff:
  "bit (drop_bit k u AND 1 :: 'a::len word) n \<longleftrightarrow> n = 0 \<and> bit u k"
  using field_bit_iff [of k u 1 n] by auto

lemma unat_sign:
  "unat (drop_bit k u AND 1 :: 'a::len word) = unat u div 2 ^ k mod 2"
  using unat_field [of k u 1] by simp

lemma sign_field_eq:
  "drop_bit k u AND 1 = (if bit u k then 1 else (0 :: 'a::len word))"
  by (rule bit_eqI) (auto simp add: sign_bit_iff bit_1_iff)

lemma fields_reassemble:
  fixes u :: "'a::len word"
  assumes len: "LENGTH('a) = Suc (k + m)"
  shows "push_bit (k + m) (drop_bit (k + m) u AND 1)
           OR push_bit k (drop_bit k u AND mask m) OR (u AND mask k) = u"
proof (rule bit_eqI)
  fix n
  assume "possible_bit TYPE('a word) n"
  then have "n < Suc (k + m)"
    by (simp add: possible_bit_def len)
  then consider "n < k" | "k \<le> n \<and> n < k + m" | "n = k + m"
    by linarith
  then show "bit (push_bit (k + m) (drop_bit (k + m) u AND 1)
           OR push_bit k (drop_bit k u AND mask m) OR (u AND mask k)) n = bit u n"
    by cases
      (simp_all only: bit_or_iff bit_push_bit_iff sign_bit_iff field_bit_iff low_field_bit_iff,
        auto simp add: possible_bit_def len bit_drop_bit_eq)
qed

lemma field_low_disjoint:
  "push_bit k (a AND mask m) AND (b AND mask k) = (0 :: 'a::len word)"
  by (rule bit_eqI) (auto simp add: bit_and_iff bit_push_bit_iff bit_mask_iff)

lemma high_low_disjoint:
  "k \<le> j \<Longrightarrow> push_bit j a AND (b AND mask k) = (0 :: 'a::len word)"
  by (rule bit_eqI) (auto simp add: bit_and_iff bit_push_bit_iff bit_mask_iff)

lemma high_field_disjoint:
  "k + m \<le> j \<Longrightarrow> push_bit j a AND push_bit k (b AND mask m) = (0 :: 'a::len word)"
  by (rule bit_eqI) (auto simp add: bit_and_iff bit_push_bit_iff bit_mask_iff)

lemma nat_split3:
  fixes n :: nat
  shows "n div 2 ^ (k + m) * 2 ^ (k + m) + (n div 2 ^ k mod 2 ^ m) * 2 ^ k + n mod 2 ^ k = n"
proof -
  have low: "n mod 2 ^ (k + m) = 2 ^ k * (n div 2 ^ k mod 2 ^ m) + n mod 2 ^ k"
    by (simp add: power_add mod_mult2_eq)
  have "n div 2 ^ (k + m) * 2 ^ (k + m) + n mod 2 ^ (k + m) = n"
    by (rule div_mult_mod_eq)
  with low show ?thesis
    by (simp add: mult.commute)
qed

lemma mask8_32: "(0xFF :: 32 word) = mask 8"
  by (simp add: mask_eq_exp_minus_1)

lemma mask23_32: "(0x7FFFFF :: 32 word) = mask 23"
  by (simp add: mask_eq_exp_minus_1)

lemma mask11_64: "(0x7FF :: 64 word) = mask 11"
  by (simp add: mask_eq_exp_minus_1)

lemma mask52_64: "(0xFFFFFFFFFFFFF :: 64 word) = mask 52"
  by (simp add: mask_eq_exp_minus_1)

section \<open>What the field extraction returns\<close>

lemma decode_float_fields_eq:
  "decode_float_fields (Float u) =
     Some \<lparr>raw = u, sign = drop_bit 31 u AND 1, exponent = drop_bit 23 u AND mask 8,
           fraction = u AND mask 23\<rparr>"
  by (simp add: decode_float_fields_def shr_u32_def Let_def mask8_32 mask23_32)

lemma decode_double_fields_eq:
  "decode_double_fields (Double u) =
     Some \<lparr>raw = u, sign = drop_bit 63 u AND 1, exponent = drop_bit 52 u AND mask 11,
           fraction = u AND mask 52\<rparr>"
  by (simp add: decode_double_fields_def shr_u64_def Let_def mask11_64 mask52_64)


lemma decode_float_fields_arith:
  fixes u :: "32 word"
  shows "unat (drop_bit 31 u AND 1 :: 32 word) * 2 ^ 31
           + unat (drop_bit 23 u AND mask 8 :: 32 word) * 2 ^ 23 + unat (u AND mask 23) = unat u"
proof -
  have s: "unat (drop_bit 31 u AND 1 :: 32 word) = unat u div 2 ^ 31 mod 2"
    by (rule unat_sign)
  have e: "unat (drop_bit 23 u AND mask 8 :: 32 word) = unat u div 2 ^ 23 mod 2 ^ 8"
    by (rule unat_field)
  have f: "unat (u AND mask 23) = unat u mod 2 ^ 23"
    by (rule unat_low_field)
  have "unat u < 2 ^ LENGTH(32)"
    by (rule unsigned_less)
  then have "unat u < 2 * 2 ^ 31"
    by simp
  then have "unat u div 2 ^ 31 < 2"
    by (rule less_mult_imp_div_less)
  then have top: "unat u div 2 ^ 31 mod 2 = unat u div 2 ^ 31"
    by simp
  show ?thesis
    unfolding s e f top using nat_split3 [of "unat u" 23 8] by simp
qed

lemma decode_double_fields_arith:
  fixes u :: "64 word"
  shows "unat (drop_bit 63 u AND 1 :: 64 word) * 2 ^ 63
           + unat (drop_bit 52 u AND mask 11 :: 64 word) * 2 ^ 52 + unat (u AND mask 52) = unat u"
proof -
  have s: "unat (drop_bit 63 u AND 1 :: 64 word) = unat u div 2 ^ 63 mod 2"
    by (rule unat_sign)
  have e: "unat (drop_bit 52 u AND mask 11 :: 64 word) = unat u div 2 ^ 52 mod 2 ^ 11"
    by (rule unat_field)
  have f: "unat (u AND mask 52) = unat u mod 2 ^ 52"
    by (rule unat_low_field)
  have "unat u < 2 ^ LENGTH(64)"
    by (rule unsigned_less)
  then have "unat u < 2 * 2 ^ 63"
    by simp
  then have "unat u div 2 ^ 63 < 2"
    by (rule less_mult_imp_div_less)
  then have top: "unat u div 2 ^ 63 mod 2 = unat u div 2 ^ 63"
    by simp
  show ?thesis
    unfolding s e f top using nat_split3 [of "unat u" 52 11] by simp
qed

lemma float_round_trip:
  "\<exists>r. decode_float_fields f = Some r \<and> raw r = float_to_u32 f
     \<and> push_bit 31 (sign r) OR push_bit 23 (exponent r) OR fraction r = float_to_u32 f
     \<and> push_bit 31 (sign r) AND push_bit 23 (exponent r) = 0
     \<and> push_bit 31 (sign r) AND fraction r = 0
     \<and> push_bit 23 (exponent r) AND fraction r = 0
     \<and> unat (sign r) * 2 ^ 31 + unat (exponent r) * 2 ^ 23 + unat (fraction r)
         = unat (float_to_u32 f)"
proof (cases f)
  case (Float u)
  have "push_bit (23 + 8) (drop_bit (23 + 8) u AND 1)
          OR push_bit 23 (drop_bit 23 u AND mask 8) OR (u AND mask 23) = u"
    by (rule fields_reassemble) simp
  then have "push_bit 31 (drop_bit 31 u AND 1)
          OR push_bit 23 (drop_bit 23 u AND mask 8) OR (u AND mask 23) = u"
    by simp
  moreover have "push_bit 31 (drop_bit 31 u AND 1) AND push_bit 23 (drop_bit 23 u AND mask 8) = 0"
    by (rule high_field_disjoint) simp
  moreover have "push_bit 31 (drop_bit 31 u AND 1) AND (u AND mask 23) = 0"
    by (rule high_low_disjoint) simp
  moreover have "push_bit 23 (drop_bit 23 u AND mask 8) AND (u AND mask 23) = 0"
    by (rule field_low_disjoint)
  ultimately show ?thesis
    using decode_float_fields_arith [of u]
    by (simp add: Float decode_float_fields_eq)
qed

lemma double_round_trip:
  "\<exists>r. decode_double_fields d = Some r \<and> raw r = double_to_u64 d
     \<and> push_bit 63 (sign r) OR push_bit 52 (exponent r) OR fraction r = double_to_u64 d
     \<and> push_bit 63 (sign r) AND push_bit 52 (exponent r) = 0
     \<and> push_bit 63 (sign r) AND fraction r = 0
     \<and> push_bit 52 (exponent r) AND fraction r = 0
     \<and> unat (sign r) * 2 ^ 63 + unat (exponent r) * 2 ^ 52 + unat (fraction r)
         = unat (double_to_u64 d)"
proof (cases d)
  case (Double u)
  have "push_bit (52 + 11) (drop_bit (52 + 11) u AND 1)
          OR push_bit 52 (drop_bit 52 u AND mask 11) OR (u AND mask 52) = u"
    by (rule fields_reassemble) simp
  then have "push_bit 63 (drop_bit 63 u AND 1)
          OR push_bit 52 (drop_bit 52 u AND mask 11) OR (u AND mask 52) = u"
    by simp
  moreover have "push_bit 63 (drop_bit 63 u AND 1) AND push_bit 52 (drop_bit 52 u AND mask 11) = 0"
    by (rule high_field_disjoint) simp
  moreover have "push_bit 63 (drop_bit 63 u AND 1) AND (u AND mask 52) = 0"
    by (rule high_low_disjoint) simp
  moreover have "push_bit 52 (drop_bit 52 u AND mask 11) AND (u AND mask 52) = 0"
    by (rule field_low_disjoint)
  ultimately show ?thesis
    using decode_double_fields_arith [of u]
    by (simp add: Double decode_double_fields_eq)
qed

section \<open>Claims on the field extraction\<close>

text \<open>
  C1. For every input of either width the three extracted fields occupy disjoint bit ranges
  and reassemble to the raw pattern read from the value's storage:
  \<open>(sign << (width - 1)) | (exponent << fraction_width) | fraction = raw\<close>, with fraction
  width 23 for the 32-bit and 52 for the 64-bit format. The same is stated on the unsigned
  values of the fields, where nothing can be lost to the width of the shift.
\<close>

theorem decode_round_trip:
  "(\<exists>r. decode_float_fields f = Some r \<and> raw r = float_to_u32 f
     \<and> push_bit 31 (sign r) OR push_bit 23 (exponent r) OR fraction r = float_to_u32 f
     \<and> push_bit 31 (sign r) AND push_bit 23 (exponent r) = 0
     \<and> push_bit 31 (sign r) AND fraction r = 0
     \<and> push_bit 23 (exponent r) AND fraction r = 0
     \<and> unat (sign r) * 2 ^ 31 + unat (exponent r) * 2 ^ 23 + unat (fraction r)
         = unat (float_to_u32 f))
   \<and> (\<exists>r. decode_double_fields d = Some r \<and> raw r = double_to_u64 d
     \<and> push_bit 63 (sign r) OR push_bit 52 (exponent r) OR fraction r = double_to_u64 d
     \<and> push_bit 63 (sign r) AND push_bit 52 (exponent r) = 0
     \<and> push_bit 63 (sign r) AND fraction r = 0
     \<and> push_bit 52 (exponent r) AND fraction r = 0
     \<and> unat (sign r) * 2 ^ 63 + unat (exponent r) * 2 ^ 52 + unat (fraction r)
         = unat (double_to_u64 d))"
  using float_round_trip [of f] double_round_trip [of d] by (rule conjI)


text \<open>
  C2. The fields are the fixed shifts and masks of each width: the sign is bit 31 (63), the
  exponent is \<open>(u >> 23) & 0xFF\<close> (\<open>(u >> 52) & 0x7FF\<close>), that is bits 30 to 23 (62 to 52),
  and the fraction is \<open>u & 0x7FFFFF\<close> (\<open>u & 0xFFFFFFFFFFFFF\<close>), that is bits 22 to 0 (51 to
  0). Each field is given as the expression, bit by bit, and as an unsigned number.
\<close>

theorem decode_shift_mask:
  "decode_float_fields (Float u) =
     Some \<lparr>raw = u, sign = (if bit u 31 then 1 else 0),
           exponent = drop_bit 23 u AND 0xFF, fraction = u AND 0x7FFFFF\<rparr>
   \<and> (\<forall>n. bit (drop_bit 23 u AND 0xFF) n \<longleftrightarrow> n < 8 \<and> bit u (23 + n))
   \<and> (\<forall>n. bit (u AND 0x7FFFFF) n \<longleftrightarrow> n < 23 \<and> bit u n)
   \<and> unat (drop_bit 23 u AND 0xFF) = unat u div 2 ^ 23 mod 2 ^ 8
   \<and> unat (u AND 0x7FFFFF) = unat u mod 2 ^ 23
   \<and> decode_double_fields (Double v) =
     Some \<lparr>raw = v, sign = (if bit v 63 then 1 else 0),
           exponent = drop_bit 52 v AND 0x7FF, fraction = v AND 0xFFFFFFFFFFFFF\<rparr>
   \<and> (\<forall>n. bit (drop_bit 52 v AND 0x7FF) n \<longleftrightarrow> n < 11 \<and> bit v (52 + n))
   \<and> (\<forall>n. bit (v AND 0xFFFFFFFFFFFFF) n \<longleftrightarrow> n < 52 \<and> bit v n)
   \<and> unat (drop_bit 52 v AND 0x7FF) = unat v div 2 ^ 52 mod 2 ^ 11
   \<and> unat (v AND 0xFFFFFFFFFFFFF) = unat v mod 2 ^ 52"
proof -
  have "decode_float_fields (Float u) =
     Some \<lparr>raw = u, sign = (if bit u 31 then 1 else 0),
           exponent = drop_bit 23 u AND mask 8, fraction = u AND mask 23\<rparr>"
    by (simp only: decode_float_fields_eq sign_field_eq)
  moreover have "\<forall>n. bit (drop_bit 23 u AND mask 8) n \<longleftrightarrow> n < 8 \<and> bit u (23 + n)"
    by (simp only: field_bit_iff simp_thms)
  moreover have "\<forall>n. bit (u AND mask 23) n \<longleftrightarrow> n < 23 \<and> bit u n"
    by (simp only: low_field_bit_iff simp_thms)
  moreover have "unat (drop_bit 23 u AND mask 8) = unat u div 2 ^ 23 mod 2 ^ 8"
    by (rule unat_field)
  moreover have "unat (u AND mask 23) = unat u mod 2 ^ 23"
    by (rule unat_low_field)
  moreover have "decode_double_fields (Double v) =
     Some \<lparr>raw = v, sign = (if bit v 63 then 1 else 0),
           exponent = drop_bit 52 v AND mask 11, fraction = v AND mask 52\<rparr>"
    by (simp only: decode_double_fields_eq sign_field_eq)
  moreover have "\<forall>n. bit (drop_bit 52 v AND mask 11) n \<longleftrightarrow> n < 11 \<and> bit v (52 + n)"
    by (simp only: field_bit_iff simp_thms)
  moreover have "\<forall>n. bit (v AND mask 52) n \<longleftrightarrow> n < 52 \<and> bit v n"
    by (simp only: low_field_bit_iff simp_thms)
  moreover have "unat (drop_bit 52 v AND mask 11) = unat v div 2 ^ 52 mod 2 ^ 11"
    by (rule unat_field)
  moreover have "unat (v AND mask 52) = unat v mod 2 ^ 52"
    by (rule unat_low_field)
  ultimately show ?thesis
    unfolding mask8_32 mask23_32 mask11_64 mask52_64 by (intro conjI)
qed

text \<open>
  C3. For every input of either width the decoded fields satisfy the invariants of the data
  model: the sign is 0 or 1, the exponent is below \<open>2^8\<close> (\<open>2^11\<close>) and the fraction is below
  \<open>2^23\<close> (\<open>2^52\<close>).
\<close>

theorem decode_fields_in_range:
  "(\<exists>r. decode_float_fields f = Some r \<and> (sign r = 0 \<or> sign r = 1)
      \<and> unat (exponent r) < 2 ^ 8 \<and> unat (fraction r) < 2 ^ 23)
   \<and> (\<exists>r. decode_double_fields d = Some r \<and> (sign r = 0 \<or> sign r = 1)
      \<and> unat (exponent r) < 2 ^ 11 \<and> unat (fraction r) < 2 ^ 52)"
proof
  obtain u where f: "f = Float u"
    by (cases f)
  have "unat (drop_bit 23 u AND mask 8) < 2 ^ 8" "unat (u AND mask 23) < 2 ^ 23"
    by (simp_all only: unat_field unat_low_field) simp_all
  then show "\<exists>r. decode_float_fields f = Some r \<and> (sign r = 0 \<or> sign r = 1)
      \<and> unat (exponent r) < 2 ^ 8 \<and> unat (fraction r) < 2 ^ 23"
    by (simp only: f decode_float_fields_eq sign_field_eq) simp
next
  obtain v where d: "d = Double v"
    by (cases d)
  have "unat (drop_bit 52 v AND mask 11) < 2 ^ 11" "unat (v AND mask 52) < 2 ^ 52"
    by (simp_all only: unat_field unat_low_field) simp_all
  then show "\<exists>r. decode_double_fields d = Some r \<and> (sign r = 0 \<or> sign r = 1)
      \<and> unat (exponent r) < 2 ^ 11 \<and> unat (fraction r) < 2 ^ 52"
    by (simp only: d decode_double_fields_eq sign_field_eq) simp
qed

section \<open>The printed text\<close>

lemma emit_emit: "emit t (emit s w) = emit (s @ t) w"
  by (simp add: emit_def)

lemma emit_Nil: "emit [] w = w"
  by (simp add: emit_def)

lemma shifted_low_bit: "(drop_bit n x AND 1 \<noteq> 0) \<longleftrightarrow> bit (x :: 'a::len word) n"
  by (simp add: bit_iff_odd_drop_bit and_one_eq odd_iff_mod_2_eq_one)

declare print_bits_u32_loop.simps [simp del] print_bits_u64_loop.simps [simp del]

lemma print_bits_u32_loop_eq:
  "n \<le> 32 \<Longrightarrow> print_bits_u32_loop x (int n - 1) w = Some (emit (bits_text 31 23 x n) w)"
proof (induction n arbitrary: w)
  case 0
  show ?case
    by (simp add: print_bits_u32_loop.simps [of x "- 1"] emit_Nil)
next
  case (Suc n)
  then have n: "n < 32" and IH: "\<And>w. print_bits_u32_loop x (int n - 1) w = Some (emit (bits_text 31 23 x n) w)"
    by simp_all
  have shr: "shr_u32 x (int n) = Some (drop_bit n x)"
    using n by (simp add: shr_u32_def)
  have "print_bits_u32_loop x (int n) w = Some (emit (bits_text 31 23 x (Suc n)) w)"
    by (subst print_bits_u32_loop.simps)
      (simp add: shr IH Let_def putchar_def emit_emit shifted_low_bit)
  then show ?case
    by simp
qed

lemma print_bits_u32_eq: "print_bits_u32 x w = Some (emit (bits_text 31 23 x 32) w)"
  using print_bits_u32_loop_eq [of 32 x w] by (simp add: print_bits_u32_def)

lemma print_bits_u64_loop_eq:
  "n \<le> 64 \<Longrightarrow> print_bits_u64_loop x (int n - 1) w = Some (emit (bits_text 63 52 x n) w)"
proof (induction n arbitrary: w)
  case 0
  show ?case
    by (simp add: print_bits_u64_loop.simps [of x "- 1"] emit_Nil)
next
  case (Suc n)
  then have n: "n < 64" and IH: "\<And>w. print_bits_u64_loop x (int n - 1) w = Some (emit (bits_text 63 52 x n) w)"
    by simp_all
  have shr: "shr_u64 x (int n) = Some (drop_bit n x)"
    using n by (simp add: shr_u64_def)
  have "print_bits_u64_loop x (int n) w = Some (emit (bits_text 63 52 x (Suc n)) w)"
    by (subst print_bits_u64_loop.simps)
      (simp add: shr IH Let_def putchar_def emit_emit shifted_low_bit)
  then show ?case
    by simp
qed

lemma print_bits_u64_eq: "print_bits_u64 x w = Some (emit (bits_text 63 52 x 64) w)"
  using print_bits_u64_loop_eq [of 64 x w] by (simp add: print_bits_u64_def)

lemma decode_float_eq:
  "decode_float L (Float u) w =
     Some (emit (''float = '' @ fmt_g9 L (Float u) @ ''\<newline>''
        @ ''bits  = '' @ bits_text 31 23 u 32 @ ''\<newline>''
        @ ''sign  = '' @ fmt_u (unat (drop_bit 31 u AND 1 :: 32 word)) @ ''\<newline>''
        @ ''exp   = 0x'' @ fmt_X 2 (unat (drop_bit 23 u AND mask 8 :: 32 word)) @ '' (''
              @ fmt_u (unat (drop_bit 23 u AND mask 8 :: 32 word)) @ '')'' @ ''\<newline>''
        @ ''frac  = 0x'' @ fmt_X 6 (unat (u AND mask 23)) @ '' (''
              @ fmt_u (unat (u AND mask 23)) @ '')'' @ ''\<newline>'') w)"
  unfolding decode_float_def decode_float_fields_eq
  by (simp only: bind.bind_lunit Let_def emit_emit putchar_def FloatBits.simps append_assoc
      print_bits_u32_eq)

lemma decode_double_eq:
  "decode_double L (Double u) w =
     Some (emit (''double = '' @ fmt_g17 L (Double u) @ ''\<newline>''
        @ ''bits   = '' @ bits_text 63 52 u 64 @ ''\<newline>''
        @ ''sign   = '' @ fmt_u (unat (drop_bit 63 u AND 1 :: 64 word)) @ ''\<newline>''
        @ ''exp    = 0x'' @ fmt_X 3 (unat (drop_bit 52 u AND mask 11 :: 64 word)) @ '' (''
              @ fmt_u (unat (drop_bit 52 u AND mask 11 :: 64 word)) @ '')'' @ ''\<newline>''
        @ ''frac   = 0x'' @ fmt_X 13 (unat (u AND mask 52)) @ ''\<newline>'') w)"
  unfolding decode_double_def decode_double_fields_eq
  by (simp only: bind.bind_lunit Let_def emit_emit putchar_def FloatBits.simps append_assoc
      print_bits_u64_eq)


section \<open>Totality\<close>

text \<open>
  C4. Decoding has no failure path: for every bit pattern of either width (signed zeros,
  infinities and NaNs with any fraction included) the field extraction returns a fully
  populated record whose raw field is the storage of the input, every shift of the two
  decoders and of the bit-printing loops stays within the width of its operand, the loops
  terminate, and the decoder returns after appending its text to standard output.
\<close>

theorem decode_total:
  "(\<exists>s e m. decode_float_fields f
        = Some \<lparr>raw = float_to_u32 f, sign = s, exponent = e, fraction = m\<rparr>)
   \<and> (\<exists>t. print_bits_u32 x w = Some (emit t w))
   \<and> (\<exists>t. decode_float L f w = Some (emit t w))
   \<and> (\<exists>s e m. decode_double_fields d
        = Some \<lparr>raw = double_to_u64 d, sign = s, exponent = e, fraction = m\<rparr>)
   \<and> (\<exists>t. print_bits_u64 y w = Some (emit t w))
   \<and> (\<exists>t. decode_double L d w = Some (emit t w))"
proof -
  obtain u where f: "f = Float u"
    by (cases f)
  obtain v where d: "d = Double v"
    by (cases d)
  show ?thesis
    unfolding f d
    by (simp only: decode_float_fields_eq decode_double_fields_eq print_bits_u32_eq
        print_bits_u64_eq decode_float_eq decode_double_eq float_to_u32.simps
        double_to_u64.simps) blast
qed


section \<open>Values and negation\<close>

lemma ieee_value_scaled:
  "ieee_value bias p s e f
     = (- 1) ^ s * of_nat (scaled_mag p e f) * 2 powi (1 - bias - int p)"
proof -
  have unit: "(2 :: rat) powi (1 - bias - int p) = 2 powi (1 - bias) / 2 ^ p"
    by (simp add: power_int_diff)
  show ?thesis
  proof (cases "e = 0")
    case True
    then show ?thesis
      by (simp add: ieee_value_def scaled_mag_def unit)
  next
    case False
    then have "int e - bias = int (e - 1) + (1 - bias)"
      by simp
    then have "(2 :: rat) powi (int e - bias) = 2 ^ (e - 1) * 2 powi (1 - bias)"
      by (simp only: power_int_add [of "2 :: rat", simplified] power_int_of_nat)
    moreover have "1 + rat_of_nat f / 2 ^ p = (2 ^ p + rat_of_nat f) / 2 ^ p"
      by (simp add: add_divide_distrib)
    ultimately show ?thesis
      using False by (simp add: ieee_value_def scaled_mag_def unit)
  qed
qed

lemma scaled_mag_less: "f < 2 ^ p \<Longrightarrow> scaled_mag p e f < 2 ^ (e + p)"
proof (cases "e = 0")
  case True
  then show "f < 2 ^ p \<Longrightarrow> ?thesis" by (simp add: scaled_mag_def)
next
  case False
  then obtain k where e: "e = Suc k"
    by (cases e) simp_all
  assume "f < 2 ^ p"
  then have "2 ^ p + f < 2 * 2 ^ p" by simp
  then have "2 ^ k * (2 ^ p + f) < 2 ^ k * (2 * 2 ^ p)"
    by (simp only: mult_less_cancel1) simp
  also have "\<dots> = (2::nat) ^ (Suc k + p)"
    by (simp add: power_add)
  finally show ?thesis by (simp add: scaled_mag_def e)
qed

lemma scaled_mag_ge:
  assumes "0 < e"
  shows "2 ^ (e - 1 + p) \<le> scaled_mag p e f"
proof -
  have "(2::nat) ^ (e - 1 + p) = 2 ^ (e - 1) * 2 ^ p"
    by (rule power_add)
  also have "\<dots> \<le> 2 ^ (e - 1) * (2 ^ p + f)"
    by (rule mult_le_mono2) simp
  finally show ?thesis
    using assms by (simp add: scaled_mag_def)
qed

lemma scaled_mag_inj:
  assumes "f1 < 2 ^ p" "f2 < 2 ^ p" "scaled_mag p e1 f1 = scaled_mag p e2 f2"
  shows "e1 = e2 \<and> f1 = f2"
proof -
  have lt: "\<not> e < e'" if "scaled_mag p e f = scaled_mag p e' f'" "f < 2 ^ p" for e e' f f'
  proof
    assume "e < e'"
    then have "0 < e'" "e + p \<le> e' - 1 + p" by simp_all
    have "scaled_mag p e f < 2 ^ (e + p)"
      using that(2) by (rule scaled_mag_less)
    also have "\<dots> \<le> (2::nat) ^ (e' - 1 + p)"
      using \<open>e + p \<le> e' - 1 + p\<close> by (rule power_increasing) simp
    also have "\<dots> \<le> scaled_mag p e' f'"
      using \<open>0 < e'\<close> by (rule scaled_mag_ge)
    finally show False using that(1) by simp
  qed
  have "\<not> e1 < e2" using lt [OF assms(3) assms(1)] .
  moreover have "\<not> e2 < e1" using lt [OF assms(3) [symmetric] assms(2)] .
  ultimately have e: "e1 = e2" by simp
  with assms(3) have "f1 = f2"
    by (simp add: scaled_mag_def split: if_splits)
  with e show ?thesis by simp
qed

lemma ieee_value_neg_fields:
  assumes s: "s \<le> 1" "s' \<le> 1" and f: "f < 2 ^ p" "f' < 2 ^ p"
    and neg: "ieee_value bias p s' e' f' = - ieee_value bias p s e f"
    and nz: "ieee_value bias p s e f \<noteq> 0"
  shows "s' \<noteq> s \<and> e' = e \<and> f' = f"
proof -
  let ?c = "(2 :: rat) powi (1 - bias - int p)"
  let ?M = "scaled_mag p e f" and ?M' = "scaled_mag p e' f'"
  have c: "?c \<noteq> 0"
    by simp
  from neg have "(- 1) ^ s' * rat_of_nat ?M' * ?c = - ((- 1) ^ s * rat_of_nat ?M) * ?c"
    by (simp only: ieee_value_scaled mult_minus_left)
  with c have eq: "(- 1) ^ s' * rat_of_nat ?M' = - ((- 1) ^ s * rat_of_nat ?M)"
    using mult_right_cancel [OF c] by blast
  from nz have M: "?M \<noteq> 0"
    by (auto simp add: ieee_value_scaled)
  from s consider "s = 0" "s' = 0" | "s = 1" "s' = 1" | "s = 0" "s' = 1" | "s = 1" "s' = 0"
    by linarith
  then show ?thesis
  proof cases
    case 1
    with eq have "rat_of_nat ?M' + rat_of_nat ?M = 0" by simp
    then have "rat_of_nat (?M' + ?M) = 0" by (simp only: of_nat_add)
    then have "?M = 0" by simp
    with M show ?thesis by simp
  next
    case 2
    with eq have "rat_of_nat ?M' + rat_of_nat ?M = 0" by simp
    then have "rat_of_nat (?M' + ?M) = 0" by (simp only: of_nat_add)
    then have "?M = 0" by simp
    with M show ?thesis by simp
  next
    case 3
    with eq have "?M' = ?M" by simp
    with scaled_mag_inj [OF f(2) f(1)] 3 show ?thesis by simp
  next
    case 4
    with eq have "?M' = ?M" by simp
    with scaled_mag_inj [OF f(2) f(1)] 4 show ?thesis by simp
  qed
qed

lemma same_fields_flip:
  fixes u v :: "'a::len word"
  assumes len: "LENGTH('a) = Suc (k + m)"
    and e: "drop_bit k u AND mask m = drop_bit k v AND mask m"
    and f: "u AND mask k = v AND mask k"
    and s: "drop_bit (k + m) u AND 1 \<noteq> drop_bit (k + m) v AND 1"
  shows "v = u XOR push_bit (k + m) 1 \<and> u AND mask (k + m) = v AND mask (k + m)"
proof -
  have top: "bit v (k + m) \<longleftrightarrow> \<not> bit u (k + m)"
    using s by (auto simp only: sign_field_eq split: if_splits)
  have mid: "bit v (k + n) \<longleftrightarrow> bit u (k + n)" if "n < m" for n
    using arg_cong [OF e, of "\<lambda>w. bit w n"] that by (simp only: field_bit_iff) simp
  have low: "bit v n \<longleftrightarrow> bit u n" if "n < k" for n
    using arg_cong [OF f, of "\<lambda>w. bit w n"] that by (simp only: low_field_bit_iff) simp
  have below: "bit v n \<longleftrightarrow> bit u n" if "n < k + m" for n
  proof (cases "n < k")
    case True
    then show ?thesis by (rule low)
  next
    case False
    with that have "n - k < m" by simp
    from mid [OF this] False show ?thesis by simp
  qed
  have "v = u XOR push_bit (k + m) 1"
  proof (rule bit_eqI)
    fix n
    assume "possible_bit TYPE('a word) n"
    then have "n < Suc (k + m)"
      by (simp add: possible_bit_def len)
    then consider "n < k + m" | "n = k + m"
      by linarith
    then show "bit v n = bit (u XOR push_bit (k + m) 1) n"
      by cases (auto simp add: bit_xor_iff bit_exp_iff below top possible_bit_def len)
  qed
  moreover have "u AND mask (k + m) = v AND mask (k + m)"
    by (rule bit_eqI) (auto simp add: low_field_bit_iff below)
  ultimately show ?thesis ..
qed

lemma float_value_eq:
  "float_value (Float u) =
     (if drop_bit 23 u AND mask 8 = mask 8 then None
      else Some (ieee_value 127 23 (unat (drop_bit 31 u AND 1 :: 32 word))
             (unat (drop_bit 23 u AND mask 8 :: 32 word)) (unat (u AND mask 23))))"
  by (simp only: float_value_def decode_float_fields_eq bind.bind_lunit FloatBits.simps mask8_32)

lemma double_value_eq:
  "double_value (Double u) =
     (if drop_bit 52 u AND mask 11 = mask 11 then None
      else Some (ieee_value 1023 52 (unat (drop_bit 63 u AND 1 :: 64 word))
             (unat (drop_bit 52 u AND mask 11 :: 64 word)) (unat (u AND mask 52))))"
  by (simp only: double_value_def decode_double_fields_eq bind.bind_lunit FloatBits.simps mask11_64)

lemma unat_sign_le: "unat (drop_bit k u AND 1 :: 'a::len word) \<le> 1"
  by (simp only: sign_field_eq split: if_split) simp

lemma unat_low_field_less: "unat (u AND mask k :: 'a::len word) < 2 ^ k"
  by (simp only: unat_low_field) simp

lemma float_negation:
  assumes x: "float_value x = Some a" and nz: "a \<noteq> 0" and y: "float_value y = Some (- a)"
  shows "\<exists>r r'. decode_float_fields x = Some r \<and> decode_float_fields y = Some r'
           \<and> exponent r' = exponent r \<and> fraction r' = fraction r \<and> sign r' \<noteq> sign r
           \<and> raw r' = raw r XOR 0x80000000
           \<and> raw r' AND 0x7FFFFFFF = raw r AND 0x7FFFFFFF"
proof -
  obtain u v where uv: "x = Float u" "y = Float v"
    by (cases x, cases y)
  let ?s = "drop_bit 31 u AND 1" and ?e = "drop_bit 23 u AND mask 8" and ?f = "u AND mask 23"
  let ?s' = "drop_bit 31 v AND 1" and ?e' = "drop_bit 23 v AND mask 8" and ?f' = "v AND mask 23"
  from x have a: "a = ieee_value 127 23 (unat ?s) (unat ?e) (unat ?f)"
    by (auto simp only: uv float_value_eq split: if_splits)
  from y have a': "- a = ieee_value 127 23 (unat ?s') (unat ?e') (unat ?f')"
    by (auto simp only: uv float_value_eq split: if_splits)
  have "unat ?s' \<noteq> unat ?s \<and> unat ?e' = unat ?e \<and> unat ?f' = unat ?f"
  proof (rule ieee_value_neg_fields)
    show "unat ?s \<le> 1" "unat ?s' \<le> 1"
      by (rule unat_sign_le)+
    show "unat ?f < 2 ^ 23" "unat ?f' < 2 ^ 23"
      by (rule unat_low_field_less)+
    show "ieee_value 127 23 (unat ?s') (unat ?e') (unat ?f')
            = - ieee_value 127 23 (unat ?s) (unat ?e) (unat ?f)"
      using a a' by simp
    show "ieee_value 127 23 (unat ?s) (unat ?e) (unat ?f) \<noteq> 0"
      using a nz by simp
  qed
  then have flds: "?s' \<noteq> ?s" "?e' = ?e" "?f' = ?f"
    by (simp_all only: word_unat_eq_iff simp_thms)
  have "v = u XOR push_bit (23 + 8) 1 \<and> u AND mask (23 + 8) = v AND mask (23 + 8)"
    by (rule same_fields_flip) (use flds in simp_all)
  then have "v = u XOR 0x80000000" "v AND 0x7FFFFFFF = u AND 0x7FFFFFFF"
    by (simp_all add: mask_eq_exp_minus_1)
  with flds show ?thesis
    by (simp only: uv decode_float_fields_eq) simp
qed

lemma double_negation:
  assumes x: "double_value x = Some a" and nz: "a \<noteq> 0" and y: "double_value y = Some (- a)"
  shows "\<exists>r r'. decode_double_fields x = Some r \<and> decode_double_fields y = Some r'
           \<and> exponent r' = exponent r \<and> fraction r' = fraction r \<and> sign r' \<noteq> sign r
           \<and> raw r' = raw r XOR 0x8000000000000000
           \<and> raw r' AND 0x7FFFFFFFFFFFFFFF = raw r AND 0x7FFFFFFFFFFFFFFF"
proof -
  obtain u v where uv: "x = Double u" "y = Double v"
    by (cases x, cases y)
  let ?s = "drop_bit 63 u AND 1" and ?e = "drop_bit 52 u AND mask 11" and ?f = "u AND mask 52"
  let ?s' = "drop_bit 63 v AND 1" and ?e' = "drop_bit 52 v AND mask 11" and ?f' = "v AND mask 52"
  from x have a: "a = ieee_value 1023 52 (unat ?s) (unat ?e) (unat ?f)"
    by (auto simp only: uv double_value_eq split: if_splits)
  from y have a': "- a = ieee_value 1023 52 (unat ?s') (unat ?e') (unat ?f')"
    by (auto simp only: uv double_value_eq split: if_splits)
  have "unat ?s' \<noteq> unat ?s \<and> unat ?e' = unat ?e \<and> unat ?f' = unat ?f"
  proof (rule ieee_value_neg_fields)
    show "unat ?s \<le> 1" "unat ?s' \<le> 1"
      by (rule unat_sign_le)+
    show "unat ?f < 2 ^ 52" "unat ?f' < 2 ^ 52"
      by (rule unat_low_field_less)+
    show "ieee_value 1023 52 (unat ?s') (unat ?e') (unat ?f')
            = - ieee_value 1023 52 (unat ?s) (unat ?e) (unat ?f)"
      using a a' by simp
    show "ieee_value 1023 52 (unat ?s) (unat ?e) (unat ?f) \<noteq> 0"
      using a nz by simp
  qed
  then have flds: "?s' \<noteq> ?s" "?e' = ?e" "?f' = ?f"
    by (simp_all only: word_unat_eq_iff simp_thms)
  have "v = u XOR push_bit (52 + 11) 1 \<and> u AND mask (52 + 11) = v AND mask (52 + 11)"
    by (rule same_fields_flip) (use flds in simp_all)
  then have "v = u XOR 0x8000000000000000" "v AND 0x7FFFFFFFFFFFFFFF = u AND 0x7FFFFFFFFFFFFFFF"
    by (simp_all add: mask_eq_exp_minus_1)
  with flds show ?thesis
    by (simp only: uv decode_double_fields_eq) simp
qed


lemma value_5: "float_value lit_5_0f = Some 5"
  by (simp add: float_value_def lit_5_0f_def decode_float_fields_def shr_u32_def ieee_value_def power_int_def power_divide)

lemma value_neg_5: "float_value (Float 0xC0A00000) = Some (- 5)"
  by (simp add: float_value_def decode_float_fields_def shr_u32_def ieee_value_def power_int_def power_divide)

lemma value_01: "double_value lit_0_1 = Some (3602879701896397 / 36028797018963968)"
  by (simp add: double_value_def lit_0_1_def decode_double_fields_def shr_u64_def ieee_value_def power_int_def power_divide)

lemma value_neg_01: "double_value (Double 0xBFB999999999999A) = Some (- (3602879701896397 / 36028797018963968))"
  by (simp add: double_value_def decode_double_fields_def shr_u64_def ieee_value_def power_int_def power_divide)


text \<open>
  C6. For every finite nonzero value \<open>x\<close> of either width, decoding \<open>-x\<close> gives the same
  exponent and fraction as decoding \<open>x\<close> and a different sign; the raw patterns differ in
  the sign bit only. Here \<open>x\<close> is any encoding whose value (by the README's formula) is a
  nonzero number \<open>a\<close>, and \<open>-x\<close> is any encoding whose value is \<open>- a\<close>.
\<close>

theorem negation_changes_sign_only:
  "(float_value x = Some a \<and> a \<noteq> 0 \<and> float_value y = Some (- a) \<longrightarrow>
      (\<exists>r r'. decode_float_fields x = Some r \<and> decode_float_fields y = Some r'
           \<and> exponent r' = exponent r \<and> fraction r' = fraction r \<and> sign r' \<noteq> sign r
           \<and> raw r' = raw r XOR 0x80000000
           \<and> raw r' AND 0x7FFFFFFF = raw r AND 0x7FFFFFFF))
   \<and> (double_value p = Some b \<and> b \<noteq> 0 \<and> double_value q = Some (- b) \<longrightarrow>
      (\<exists>r r'. decode_double_fields p = Some r \<and> decode_double_fields q = Some r'
           \<and> exponent r' = exponent r \<and> fraction r' = fraction r \<and> sign r' \<noteq> sign r
           \<and> raw r' = raw r XOR 0x8000000000000000
           \<and> raw r' AND 0x7FFFFFFFFFFFFFFF = raw r AND 0x7FFFFFFFFFFFFFFF))"
  using float_negation [of x a y] double_negation [of p b q] by blast

theorem negation_changes_sign_only_witness:
  "float_value lit_5_0f = Some 5 \<and> (5 :: rat) \<noteq> 0 \<and> float_value (Float 0xC0A00000) = Some (- 5)
   \<and> (\<exists>r r'. decode_float_fields lit_5_0f = Some r \<and> decode_float_fields (Float 0xC0A00000) = Some r'
           \<and> exponent r' = exponent r \<and> fraction r' = fraction r \<and> sign r' \<noteq> sign r
           \<and> raw r' = raw r XOR 0x80000000
           \<and> raw r' AND 0x7FFFFFFF = raw r AND 0x7FFFFFFF)
   \<and> double_value lit_0_1 = Some (3602879701896397 / 36028797018963968)
   \<and> (3602879701896397 / 36028797018963968 :: rat) \<noteq> 0
   \<and> double_value (Double 0xBFB999999999999A) = Some (- (3602879701896397 / 36028797018963968))
   \<and> (\<exists>r r'. decode_double_fields lit_0_1 = Some r
           \<and> decode_double_fields (Double 0xBFB999999999999A) = Some r'
           \<and> exponent r' = exponent r \<and> fraction r' = fraction r \<and> sign r' \<noteq> sign r
           \<and> raw r' = raw r XOR 0x8000000000000000
           \<and> raw r' AND 0x7FFFFFFFFFFFFFFF = raw r AND 0x7FFFFFFFFFFFFFFF)"
proof -
  have nz: "(5 :: rat) \<noteq> 0" "(3602879701896397 / 36028797018963968 :: rat) \<noteq> 0"
    by simp_all
  from negation_changes_sign_only [of lit_5_0f 5 "Float 0xC0A00000" lit_0_1
      "3602879701896397 / 36028797018963968" "Double 0xBFB999999999999A"]
    value_5 value_neg_5 value_01 value_neg_01 nz
  show ?thesis
    by blast
qed


section \<open>Rounding a decimal constant\<close>

lemma ieee_value_pos_less:
  assumes "f < 2 ^ p"
  shows "ieee_value bias p 0 e f < 2 powi (int e + 1 - bias)"
proof -
  from assms have "rat_of_nat f < 2 ^ p"
    by (metis of_nat_less_iff of_nat_numeral of_nat_power)
  then have frac: "rat_of_nat f / 2 ^ p < 1"
    by simp
  show ?thesis
  proof (cases "e = 0")
    case True
    have "2 powi (1 - bias) * (rat_of_nat f / 2 ^ p) < 2 powi (1 - bias) * 1"
      using frac by (intro mult_strict_left_mono) simp_all
    with True show ?thesis
      by (simp add: ieee_value_def)
  next
    case False
    have "2 powi (int e - bias) * (1 + rat_of_nat f / 2 ^ p) < 2 powi (int e - bias) * 2"
      using frac by (intro mult_strict_left_mono) simp_all
    also have "\<dots> = 2 powi (int e - bias + 1)"
      by (simp add: power_int_add_1)
    finally show ?thesis
      using False by (simp add: ieee_value_def add.commute add_diff_eq)
  qed
qed

lemma ieee_value_pos_ge:
  assumes "0 < e"
  shows "2 powi (int e - bias) \<le> ieee_value bias p 0 e f"
proof -
  have "2 powi (int e - bias) * 1 \<le> 2 powi (int e - bias) * (1 + rat_of_nat f / 2 ^ p)"
    by (intro mult_left_mono) simp_all
  with assms show ?thesis
    by (simp add: ieee_value_def)
qed

lemma ieee_value_neg_le: "ieee_value bias p 1 e f \<le> 0"
  by (simp add: ieee_value_def mult_nonneg_nonneg add_nonneg_nonneg)

lemma tenth_nearest_binary32:
  assumes s: "s \<le> 1" and f: "f < 2 ^ 23"
  shows "\<bar>13421773 / 134217728 - 1 / 10\<bar> \<le> \<bar>ieee_value 127 23 s e f - 1 / 10\<bar>"
proof -
  let ?v = "ieee_value 127 23 s e f"
  have lhs: "\<bar>13421773 / 134217728 - 1 / 10 :: rat\<bar> = 1 / 671088640"
    by simp
  from s consider "s = 1" | "s = 0" "e \<le> 122" | "s = 0" "124 \<le> e" | "s = 0" "e = 123"
    by linarith
  then have "1 / 671088640 \<le> \<bar>?v - 1 / 10\<bar>"
  proof cases
    case 1
    then have "?v \<le> 0"
      by (simp only: ieee_value_neg_le)
    then show ?thesis
      by linarith
  next
    case 2
    have "?v < 2 powi (int e + 1 - 127)"
      unfolding \<open>s = 0\<close> using f by (rule ieee_value_pos_less)
    also have "\<dots> \<le> 2 powi (- 4)"
      using \<open>e \<le> 122\<close> by (intro power_int_increasing) simp_all
    finally have "?v < 1 / 16"
      by simp
    then show ?thesis
      by linarith
  next
    case 3
    have "(2 :: rat) powi (- 3) \<le> 2 powi (int e - 127)"
      using \<open>124 \<le> e\<close> by (intro power_int_increasing) simp_all
    also have "\<dots> \<le> ?v"
      unfolding \<open>s = 0\<close> using \<open>124 \<le> e\<close> by (intro ieee_value_pos_ge) simp
    finally have "1 / 8 \<le> ?v"
      by simp
    then show ?thesis
      by linarith
  next
    case 4
    then have v: "?v = (8388608 + rat_of_nat f) / 134217728"
      by (simp add: ieee_value_def power_int_def power_divide add_divide_distrib)
    consider "f \<le> 5033164" | "5033165 \<le> f"
      by linarith
    then show ?thesis
    proof cases
      case 1
      then have "rat_of_nat f \<le> 5033164"
        by (metis of_nat_le_iff of_nat_numeral)
      then show ?thesis
        unfolding v by (simp add: field_simps)
    next
      case 2
      then have "5033165 \<le> rat_of_nat f"
        by (metis of_nat_le_iff of_nat_numeral)
      then show ?thesis
        unfolding v by (simp add: field_simps)
    qed
  qed
  with lhs show ?thesis
    by simp
qed

lemma tenth_nearest_binary64:
  assumes s: "s \<le> 1" and f: "f < 2 ^ 52"
  shows "\<bar>3602879701896397 / 36028797018963968 - 1 / 10\<bar> \<le> \<bar>ieee_value 1023 52 s e f - 1 / 10\<bar>"
proof -
  let ?v = "ieee_value 1023 52 s e f"
  have lhs: "\<bar>3602879701896397 / 36028797018963968 - 1 / 10 :: rat\<bar> = 1 / 180143985094819840"
    by simp
  from s consider "s = 1" | "s = 0" "e \<le> 1018" | "s = 0" "1020 \<le> e" | "s = 0" "e = 1019"
    by linarith
  then have "1 / 180143985094819840 \<le> \<bar>?v - 1 / 10\<bar>"
  proof cases
    case 1
    then have "?v \<le> 0"
      by (simp only: ieee_value_neg_le)
    then show ?thesis
      by linarith
  next
    case 2
    have "?v < 2 powi (int e + 1 - 1023)"
      unfolding \<open>s = 0\<close> using f by (rule ieee_value_pos_less)
    also have "\<dots> \<le> 2 powi (- 4)"
      using \<open>e \<le> 1018\<close> by (intro power_int_increasing) simp_all
    finally have "?v < 1 / 16"
      by simp
    then show ?thesis
      by linarith
  next
    case 3
    have "(2 :: rat) powi (- 3) \<le> 2 powi (int e - 1023)"
      using \<open>1020 \<le> e\<close> by (intro power_int_increasing) simp_all
    also have "\<dots> \<le> ?v"
      unfolding \<open>s = 0\<close> using \<open>1020 \<le> e\<close> by (intro ieee_value_pos_ge) simp
    finally have "1 / 8 \<le> ?v"
      by simp
    then show ?thesis
      by linarith
  next
    case 4
    then have v: "?v = (4503599627370496 + rat_of_nat f) / 72057594037927936"
      by (simp add: ieee_value_def power_int_def power_divide add_divide_distrib)
    consider "f \<le> 2702159776422297" | "2702159776422298 \<le> f"
      by linarith
    then show ?thesis
    proof cases
      case 1
      then have "rat_of_nat f \<le> 2702159776422297"
        by (metis of_nat_le_iff of_nat_numeral)
      then show ?thesis
        unfolding v by (simp add: field_simps)
    next
      case 2
      then have "2702159776422298 \<le> rat_of_nat f"
        by (metis of_nat_le_iff of_nat_numeral)
      then show ?thesis
        unfolding v by (simp add: field_simps)
    qed
  qed
  with lhs show ?thesis
    by simp
qed


lemma float_nearest_tenth:
  assumes "float_value y = Some v"
  shows "\<bar>13421773 / 134217728 - 1 / 10\<bar> \<le> \<bar>v - 1 / 10\<bar>"
proof -
  obtain u where "y = Float u"
    by (cases y)
  with assms have "v = ieee_value 127 23 (unat (drop_bit 31 u AND 1 :: 32 word))
             (unat (drop_bit 23 u AND mask 8 :: 32 word)) (unat (u AND mask 23))"
    by (auto simp only: float_value_eq split: if_splits)
  then show ?thesis
    by (simp only: tenth_nearest_binary32 [OF unat_sign_le unat_low_field_less])
qed

lemma double_nearest_tenth:
  assumes "double_value y = Some v"
  shows "\<bar>3602879701896397 / 36028797018963968 - 1 / 10\<bar> \<le> \<bar>v - 1 / 10\<bar>"
proof -
  obtain u where "y = Double u"
    by (cases y)
  with assms have "v = ieee_value 1023 52 (unat (drop_bit 63 u AND 1 :: 64 word))
             (unat (drop_bit 52 u AND mask 11 :: 64 word)) (unat (u AND mask 52))"
    by (auto simp only: double_value_eq split: if_splits)
  then show ?thesis
    by (simp only: tenth_nearest_binary64 [OF unat_sign_le unat_low_field_less])
qed

lemma fields_5_0f:
  "decode_float_fields lit_5_0f
     = Some \<lparr>raw = 0x40A00000, sign = 0, exponent = 129, fraction = 0x200000\<rparr>"
  by (simp add: lit_5_0f_def decode_float_fields_def shr_u32_def)

lemma fields_0_1f:
  "decode_float_fields lit_0_1f
     = Some \<lparr>raw = 0x3DCCCCCD, sign = 0, exponent = 123, fraction = 0x4CCCCD\<rparr>"
  by (simp add: lit_0_1f_def decode_float_fields_def shr_u32_def)

lemma fields_neg_0_0f:
  "decode_float_fields lit_neg_0_0f
     = Some \<lparr>raw = 0x80000000, sign = 1, exponent = 0, fraction = 0\<rparr>"
  by (simp add: lit_neg_0_0f_def decode_float_fields_def shr_u32_def)

lemma fields_0_1:
  "decode_double_fields lit_0_1
     = Some \<lparr>raw = 0x3FB999999999999A, sign = 0, exponent = 1019,
         fraction = 0x999999999999A\<rparr>"
  by (simp add: lit_0_1_def decode_double_fields_def shr_u64_def)

lemma value_0_1f: "float_value lit_0_1f = Some (13421773 / 134217728)"
  by (simp add: float_value_def fields_0_1f ieee_value_def power_int_def power_divide)

lemma value_neg_0_0f: "float_value lit_neg_0_0f = Some 0"
  by (simp add: float_value_def fields_neg_0_0f ieee_value_def)

lemma signed_zero_row: "rows_applying 255 0 0 = [SignedZero]"
  by (simp add: rows_applying_def table_rows_def)

section \<open>The sample values\<close>

text \<open>
  C7. The 32-bit decoder on the three sample inputs: \<^verbatim>\<open>5.0f\<close> gives sign 0, exponent 129
  (0x81), fraction 0x200000; \<^verbatim>\<open>0.1f\<close> gives sign 0, exponent 123 (0x7B), fraction
  0x4CCCCD; \<^verbatim>\<open>-0.0f\<close> gives sign 1, exponent 0, fraction 0, the row "signed zero" of the
  classification table. The inputs are the encodings whose value is 5, the finite value
  nearest to 1/10, and the zero with the sign bit set.
\<close>

theorem float_samples:
  "decode_float_fields lit_5_0f
     = Some \<lparr>raw = 0x40A00000, sign = 0, exponent = 129, fraction = 0x200000\<rparr>
   \<and> float_value lit_5_0f = Some 5
   \<and> decode_float_fields lit_0_1f
     = Some \<lparr>raw = 0x3DCCCCCD, sign = 0, exponent = 123, fraction = 0x4CCCCD\<rparr>
   \<and> float_value lit_0_1f = Some (13421773 / 134217728)
   \<and> (\<forall>y v. float_value y = Some v
         \<longrightarrow> \<bar>13421773 / 134217728 - 1 / 10\<bar> \<le> \<bar>v - 1 / 10\<bar>)
   \<and> decode_float_fields lit_neg_0_0f
     = Some \<lparr>raw = 0x80000000, sign = 1, exponent = 0, fraction = 0\<rparr>
   \<and> float_value lit_neg_0_0f = Some 0
   \<and> rows_applying 255 (unat (0 :: 32 word)) (unat (0 :: 32 word)) = [SignedZero]"
  using fields_5_0f value_5 fields_0_1f value_0_1f float_nearest_tenth fields_neg_0_0f
    value_neg_0_0f signed_zero_row
  by simp

theorem float_samples_witness:
  "float_value lit_5_0f = Some 5 \<and> \<bar>13421773 / 134217728 - 1 / 10 :: rat\<bar> \<le> \<bar>5 - 1 / 10\<bar>"
proof -
  from float_samples have "\<forall>y v. float_value y = Some v
         \<longrightarrow> \<bar>13421773 / 134217728 - 1 / 10\<bar> \<le> \<bar>v - 1 / 10\<bar>"
    by (elim conjE)
  then have "float_value lit_5_0f = Some 5 \<longrightarrow> \<bar>13421773 / 134217728 - 1 / 10 :: rat\<bar> \<le> \<bar>5 - 1 / 10\<bar>"
    by blast
  with value_5 show ?thesis
    by blast
qed

text \<open>
  C8. The 64-bit decoder on \<^verbatim>\<open>0.1\<close> gives sign 0, exponent 1019 (0x3FB), fraction
  0x999999999999A; the input is the encoding of the finite binary64 value nearest to 1/10.
\<close>

theorem double_sample:
  "decode_double_fields lit_0_1
     = Some \<lparr>raw = 0x3FB999999999999A, sign = 0, exponent = 1019,
         fraction = 0x999999999999A\<rparr>
   \<and> double_value lit_0_1 = Some (3602879701896397 / 36028797018963968)
   \<and> (\<forall>y v. double_value y = Some v
         \<longrightarrow> \<bar>3602879701896397 / 36028797018963968 - 1 / 10\<bar> \<le> \<bar>v - 1 / 10\<bar>)"
  using fields_0_1 value_01 double_nearest_tenth
  by simp

theorem double_sample_witness:
  "double_value (Double 0xBFB999999999999A) = Some (- (3602879701896397 / 36028797018963968))
   \<and> \<bar>3602879701896397 / 36028797018963968 - 1 / 10 :: rat\<bar>
       \<le> \<bar>- (3602879701896397 / 36028797018963968) - 1 / 10\<bar>"
proof -
  from double_sample have "\<forall>y v. double_value y = Some v
         \<longrightarrow> \<bar>3602879701896397 / 36028797018963968 - 1 / 10\<bar> \<le> \<bar>v - 1 / 10\<bar>"
    by (elim conjE)
  then have "double_value (Double 0xBFB999999999999A) = Some (- (3602879701896397 / 36028797018963968))
     \<longrightarrow> \<bar>3602879701896397 / 36028797018963968 - 1 / 10 :: rat\<bar>
       \<le> \<bar>- (3602879701896397 / 36028797018963968) - 1 / 10\<bar>"
    by blast
  with value_neg_01 show ?thesis
    by blast
qed


section \<open>The driver's output\<close>

lemma sample_renderings_simps:
  "fmt_g9 sample_renderings lit_5_0f = ''5''"
  "fmt_g9 sample_renderings lit_0_1f = ''0.100000001''"
  "fmt_g9 sample_renderings lit_neg_0_0f = ''-0''"
  "fmt_g17 sample_renderings lit_0_1 = ''0.10000000000000001''"
  by (simp_all add: sample_renderings_def lit_5_0f_def lit_0_1f_def lit_neg_0_0f_def
      lit_0_1_def)

lemma replicate_numeral: "replicate (numeral k) x = x # replicate (pred_numeral k) x"
  by (simp add: numeral_eq_Suc)

lemma decode_float_5_0f:
  "decode_float L lit_5_0f w = Some (emit (''float = '' @ fmt_g9 L lit_5_0f
      @ ''\<newline>bits  = 0 10000001 01000000000000000000000\<newline>sign  = 0\<newline>exp   = 0x81 (129)\<newline>frac  = 0x200000 (2097152)\<newline>'') w)"
proof -
  have bits: "bits_text 31 23 (0x40A00000 :: 32 word) 32 = ''0 10000001 01000000000000000000000''"
    by code_simp
  have flds: "unat (drop_bit 31 (0x40A00000 :: 32 word) AND 1) = 0"
    "unat (drop_bit 23 (0x40A00000 :: 32 word) AND mask 8) = 129"
    "unat ((0x40A00000 :: 32 word) AND mask 23) = 2097152"
    by (simp_all add: mask_eq_exp_minus_1)
  have strs: "fmt_u 0 = ''0''" "fmt_X 2 129 = ''81''" "fmt_u 129 = ''129''"
    "fmt_X 6 2097152 = ''200000''" "fmt_u 2097152 = ''2097152''"
    by (simp_all add: fmt_X_def digit_char_def replicate_numeral)
  show ?thesis
    unfolding lit_5_0f_def decode_float_eq bits flds strs by simp
qed

lemma decode_float_0_1f:
  "decode_float L lit_0_1f w = Some (emit (''float = '' @ fmt_g9 L lit_0_1f
      @ ''\<newline>bits  = 0 01111011 10011001100110011001101\<newline>sign  = 0\<newline>exp   = 0x7B (123)\<newline>frac  = 0x4CCCCD (5033165)\<newline>'') w)"
proof -
  have bits: "bits_text 31 23 (0x3DCCCCCD :: 32 word) 32 = ''0 01111011 10011001100110011001101''"
    by code_simp
  have flds: "unat (drop_bit 31 (0x3DCCCCCD :: 32 word) AND 1) = 0"
    "unat (drop_bit 23 (0x3DCCCCCD :: 32 word) AND mask 8) = 123"
    "unat ((0x3DCCCCCD :: 32 word) AND mask 23) = 5033165"
    by (simp_all add: mask_eq_exp_minus_1)
  have strs: "fmt_u 0 = ''0''" "fmt_X 2 123 = ''7B''" "fmt_u 123 = ''123''"
    "fmt_X 6 5033165 = ''4CCCCD''" "fmt_u 5033165 = ''5033165''"
    by (simp_all add: fmt_X_def digit_char_def replicate_numeral)
  show ?thesis
    unfolding lit_0_1f_def decode_float_eq bits flds strs by simp
qed

lemma decode_float_neg_0_0f:
  "decode_float L lit_neg_0_0f w = Some (emit (''float = '' @ fmt_g9 L lit_neg_0_0f
      @ ''\<newline>bits  = 1 00000000 00000000000000000000000\<newline>sign  = 1\<newline>exp   = 0x00 (0)\<newline>frac  = 0x000000 (0)\<newline>'') w)"
proof -
  have bits: "bits_text 31 23 (0x80000000 :: 32 word) 32 = ''1 00000000 00000000000000000000000''"
    by code_simp
  have flds: "unat (drop_bit 31 (0x80000000 :: 32 word) AND 1) = 1"
    "unat (drop_bit 23 (0x80000000 :: 32 word) AND mask 8) = 0"
    "unat ((0x80000000 :: 32 word) AND mask 23) = 0"
    by (simp_all add: mask_eq_exp_minus_1)
  have strs: "fmt_u 1 = ''1''" "fmt_X 2 0 = ''00''" "fmt_u 0 = ''0''"
    "fmt_X 6 0 = ''000000''" "fmt_u 0 = ''0''"
    by (simp_all add: fmt_X_def digit_char_def replicate_numeral)
  show ?thesis
    unfolding lit_neg_0_0f_def decode_float_eq bits flds strs by simp
qed

lemma decode_double_0_1:
  "decode_double L lit_0_1 w = Some (emit (''double = '' @ fmt_g17 L lit_0_1
      @ ''\<newline>bits   = 0 01111111011 1001100110011001100110011001100110011001100110011010\<newline>sign   = 0\<newline>exp    = 0x3FB (1019)\<newline>frac   = 0x999999999999A\<newline>'') w)"
proof -
  have bits: "bits_text 63 52 (0x3FB999999999999A :: 64 word) 64
      = ''0 01111111011 1001100110011001100110011001100110011001100110011010''"
    by code_simp
  have flds: "unat (drop_bit 63 (0x3FB999999999999A :: 64 word) AND 1) = 0"
    "unat (drop_bit 52 (0x3FB999999999999A :: 64 word) AND mask 11) = 1019"
    "unat ((0x3FB999999999999A :: 64 word) AND mask 52) = 2702159776422298"
    by (simp_all add: mask_eq_exp_minus_1)
  have strs: "fmt_u 0 = ''0''" "fmt_X 3 1019 = ''3FB''" "fmt_u 1019 = ''1019''"
    "fmt_X 13 2702159776422298 = ''999999999999A''"
    by (simp_all add: fmt_X_def digit_char_def replicate_numeral)
  show ?thesis
    unfolding lit_0_1_def decode_double_eq bits flds strs by simp
qed

lemma puts_emit: "puts s (emit t w) = emit (t @ s @ ''\<newline>'') w"
  by (simp add: puts_def emit_emit)

text \<open>
  C10. The program is closed over its inputs: \<^verbatim>\<open>main\<close> takes nothing from standard input
  (which it leaves as it found it), decodes \<^verbatim>\<open>5.0f\<close>, \<^verbatim>\<open>0.1f\<close>, \<^verbatim>\<open>0.1\<close> and \<^verbatim>\<open>-0.0f\<close>
  in this order with a line \<^verbatim>\<open>----\<close> between consecutive decodes, appends the same bytes
  to standard output on every run (whatever the state it starts in, for a given C
  library's \<^verbatim>\<open>%.9g\<close> and \<^verbatim>\<open>%.17g\<close>), and returns 0. With correctly rounded
  renderings of the four values the whole output is the text of the second conjunct.
\<close>

theorem main_deterministic:
  "main L w = Some (0, w\<lparr>w_stdout := w_stdout w
      @ ''float = '' @ fmt_g9 L lit_5_0f
      @ ''\<newline>bits  = 0 10000001 01000000000000000000000\<newline>sign  = 0\<newline>exp   = 0x81 (129)\<newline>frac  = 0x200000 (2097152)\<newline>''
      @ ''----\<newline>''
      @ ''float = '' @ fmt_g9 L lit_0_1f
      @ ''\<newline>bits  = 0 01111011 10011001100110011001101\<newline>sign  = 0\<newline>exp   = 0x7B (123)\<newline>frac  = 0x4CCCCD (5033165)\<newline>''
      @ ''----\<newline>''
      @ ''double = '' @ fmt_g17 L lit_0_1
      @ ''\<newline>bits   = 0 01111111011 1001100110011001100110011001100110011001100110011010\<newline>sign   = 0\<newline>exp    = 0x3FB (1019)\<newline>frac   = 0x999999999999A\<newline>''
      @ ''----\<newline>''
      @ ''float = '' @ fmt_g9 L lit_neg_0_0f
      @ ''\<newline>bits  = 1 00000000 00000000000000000000000\<newline>sign  = 1\<newline>exp   = 0x00 (0)\<newline>frac  = 0x000000 (0)\<newline>''\<rparr>)
   \<and> main sample_renderings \<lparr>w_stdin = [], w_stdout = []\<rparr>
     = Some (0, \<lparr>w_stdin = [], w_stdout =
         ''float = 5\<newline>bits  = 0 10000001 01000000000000000000000\<newline>sign  = 0\<newline>exp   = 0x81 (129)\<newline>frac  = 0x200000 (2097152)\<newline>----\<newline>float = 0.100000001\<newline>bits  = 0 01111011 10011001100110011001101\<newline>sign  = 0\<newline>exp   = 0x7B (123)\<newline>frac  = 0x4CCCCD (5033165)\<newline>----\<newline>double = 0.10000000000000001\<newline>bits   = 0 01111111011 1001100110011001100110011001100110011001100110011010\<newline>sign   = 0\<newline>exp    = 0x3FB (1019)\<newline>frac   = 0x999999999999A\<newline>----\<newline>float = -0\<newline>bits  = 1 00000000 00000000000000000000000\<newline>sign  = 1\<newline>exp   = 0x00 (0)\<newline>frac  = 0x000000 (0)\<newline>''\<rparr>)
   \<and> float_value lit_5_0f = Some 5
   \<and> float_value lit_0_1f = Some (13421773 / 134217728)
   \<and> double_value lit_0_1 = Some (3602879701896397 / 36028797018963968)
   \<and> float_value lit_neg_0_0f = Some 0
   \<and> float_to_u32 lit_neg_0_0f = 0x80000000"
  (is "?run \<and> ?sample \<and> ?denoted")
proof (intro conjI)
  have run: "main L w = Some (0, emit (''float = '' @ fmt_g9 L lit_5_0f
      @ ''\<newline>bits  = 0 10000001 01000000000000000000000\<newline>sign  = 0\<newline>exp   = 0x81 (129)\<newline>frac  = 0x200000 (2097152)\<newline>''
      @ ''----\<newline>''
      @ ''float = '' @ fmt_g9 L lit_0_1f
      @ ''\<newline>bits  = 0 01111011 10011001100110011001101\<newline>sign  = 0\<newline>exp   = 0x7B (123)\<newline>frac  = 0x4CCCCD (5033165)\<newline>''
      @ ''----\<newline>''
      @ ''double = '' @ fmt_g17 L lit_0_1
      @ ''\<newline>bits   = 0 01111111011 1001100110011001100110011001100110011001100110011010\<newline>sign   = 0\<newline>exp    = 0x3FB (1019)\<newline>frac   = 0x999999999999A\<newline>''
      @ ''----\<newline>''
      @ ''float = '' @ fmt_g9 L lit_neg_0_0f
      @ ''\<newline>bits  = 1 00000000 00000000000000000000000\<newline>sign  = 1\<newline>exp   = 0x00 (0)\<newline>frac  = 0x000000 (0)\<newline>'') w)"
    for L w
    unfolding main_def
    by (simp only: decode_float_5_0f decode_float_0_1f decode_double_0_1 decode_float_neg_0_0f
        bind.bind_lunit Let_def puts_emit)
      (simp add: emit_def)
  show ?run
    by (simp add: run emit_def)
  show ?sample
    by (simp add: run emit_def sample_renderings_simps)
  show "float_value lit_5_0f = Some 5"
    by (rule value_5)
  show "float_value lit_0_1f = Some (13421773 / 134217728)"
    by (rule value_0_1f)
  show "double_value lit_0_1 = Some (3602879701896397 / 36028797018963968)"
    by (rule value_01)
  show "float_value lit_neg_0_0f = Some 0"
    by (rule value_neg_0_0f)
  show "float_to_u32 lit_neg_0_0f = 0x80000000"
    by (simp add: lit_neg_0_0f_def)
qed

section \<open>Classification and presentation\<close>

lemma rows_applying_eq:
  assumes "0 < emax" "e \<le> emax"
  shows "rows_applying emax e f =
     [if e = 0 then (if f = 0 then SignedZero else Subnormal)
      else if e < emax then Normal
      else if f = 0 then SignedInfinity else NaN]"
  using assms by (auto simp add: rows_applying_def table_rows_def)

lemma unat_field_less: "unat (drop_bit k u AND mask m :: 'a::len word) < 2 ^ m"
  by (simp only: unat_field) simp

text \<open>
  C5, as amended. For every exponent and fraction within the field bounds of either format,
  and so for the fields decoded from every input, exactly one row of the classification
  table applies: (0, 0) signed zero, (0, nonzero) subnormal, (0 < exponent < E_max, any)
  normal, (E_max, 0) signed infinity, (E_max, nonzero) NaN, with E_max 255 and 2047. The
  program does not compute it: the text a decoder prints is the value, bits, sign, exponent
  and fraction lines, whatever the input.
\<close>

theorem classification_rows:
  "(e32 < 2 ^ 8 \<longrightarrow> rows_applying 255 e32 f32 =
       [if e32 = 0 then (if f32 = 0 then SignedZero else Subnormal)
        else if e32 < 255 then Normal
        else if f32 = 0 then SignedInfinity else NaN])
   \<and> (e64 < 2 ^ 11 \<longrightarrow> rows_applying 2047 e64 f64 =
       [if e64 = 0 then (if f64 = 0 then SignedZero else Subnormal)
        else if e64 < 2047 then Normal
        else if f64 = 0 then SignedInfinity else NaN])
   \<and> (\<exists>r c. decode_float_fields x = Some r
         \<and> rows_applying 255 (unat (exponent r)) (unat (fraction r)) = [c])
   \<and> (\<exists>r c. decode_double_fields d = Some r
         \<and> rows_applying 2047 (unat (exponent r)) (unat (fraction r)) = [c])
   \<and> decode_float L (Float u) w =
     Some (emit (''float = '' @ fmt_g9 L (Float u) @ ''\<newline>''
        @ ''bits  = '' @ bits_text 31 23 u 32 @ ''\<newline>''
        @ ''sign  = '' @ fmt_u (unat (drop_bit 31 u AND 1 :: 32 word)) @ ''\<newline>''
        @ ''exp   = 0x'' @ fmt_X 2 (unat (drop_bit 23 u AND mask 8 :: 32 word)) @ '' (''
              @ fmt_u (unat (drop_bit 23 u AND mask 8 :: 32 word)) @ '')'' @ ''\<newline>''
        @ ''frac  = 0x'' @ fmt_X 6 (unat (u AND mask 23)) @ '' (''
              @ fmt_u (unat (u AND mask 23)) @ '')'' @ ''\<newline>'') w)
   \<and> decode_double L (Double v) w =
     Some (emit (''double = '' @ fmt_g17 L (Double v) @ ''\<newline>''
        @ ''bits   = '' @ bits_text 63 52 v 64 @ ''\<newline>''
        @ ''sign   = '' @ fmt_u (unat (drop_bit 63 v AND 1 :: 64 word)) @ ''\<newline>''
        @ ''exp    = 0x'' @ fmt_X 3 (unat (drop_bit 52 v AND mask 11 :: 64 word)) @ '' (''
              @ fmt_u (unat (drop_bit 52 v AND mask 11 :: 64 word)) @ '')'' @ ''\<newline>''
        @ ''frac   = 0x'' @ fmt_X 13 (unat (v AND mask 52)) @ ''\<newline>'') w)"
proof -
  have r32: "rows_applying 255 e f =
       [if e = 0 then (if f = 0 then SignedZero else Subnormal)
        else if e < 255 then Normal
        else if f = 0 then SignedInfinity else NaN]" if "e < 2 ^ 8" for e f
    using that by (intro rows_applying_eq) simp_all
  have r64: "rows_applying 2047 e f =
       [if e = 0 then (if f = 0 then SignedZero else Subnormal)
        else if e < 2047 then Normal
        else if f = 0 then SignedInfinity else NaN]" if "e < 2 ^ 11" for e f
    using that by (intro rows_applying_eq) simp_all
  obtain a where x: "x = Float a"
    by (cases x)
  obtain b where d: "d = Double b"
    by (cases d)
  have "\<exists>r c. decode_float_fields x = Some r
         \<and> rows_applying 255 (unat (exponent r)) (unat (fraction r)) = [c]"
    unfolding x decode_float_fields_eq
    using r32 [OF unat_field_less [of 23 a 8]] by simp
  moreover have "\<exists>r c. decode_double_fields d = Some r
         \<and> rows_applying 2047 (unat (exponent r)) (unat (fraction r)) = [c]"
    unfolding d decode_double_fields_eq
    using r64 [OF unat_field_less [of 52 b 11]] by simp
  ultimately show ?thesis
    using r32 r64 decode_float_eq decode_double_eq by blast
qed

theorem classification_rows_witness:
  "(255 :: nat) < 2 ^ 8 \<and> rows_applying 255 255 1 = [NaN]
   \<and> (0 :: nat) < 2 ^ 11 \<and> rows_applying 2047 0 5 = [Subnormal]"
  using classification_rows [of 255 1 0 5] by simp

text \<open>
  C5, as stated, fails: the classification is not computed by the program. On \<^verbatim>\<open>-0.0f\<close>,
  whose fields are in the row "signed zero", the complete output of \<^verbatim>\<open>decode_float\<close> (the
  value rendered as \<^verbatim>\<open>-0\<close>) is the five lines below, and it names none of the table's
  classes.
\<close>

theorem classification_not_printed:
  "decode_float_fields lit_neg_0_0f
     = Some \<lparr>raw = 0x80000000, sign = 1, exponent = 0, fraction = 0\<rparr>
   \<and> rows_applying 255 (unat (0 :: 32 word)) (unat (0 :: 32 word)) = [SignedZero]
   \<and> decode_float sample_renderings lit_neg_0_0f
         \<lparr>w_stdin = [], w_stdout = []\<rparr>
     = Some \<lparr>w_stdin = [], w_stdout = ''float = -0\<newline>bits  = 1 00000000 00000000000000000000000\<newline>sign  = 1\<newline>exp   = 0x00 (0)\<newline>frac  = 0x000000 (0)\<newline>''\<rparr>
   \<and> \<not> occurs_in (class_label SignedZero)
         ''float = -0\<newline>bits  = 1 00000000 00000000000000000000000\<newline>sign  = 1\<newline>exp   = 0x00 (0)\<newline>frac  = 0x000000 (0)\<newline>''
   \<and> \<not> occurs_in (class_label Subnormal)
         ''float = -0\<newline>bits  = 1 00000000 00000000000000000000000\<newline>sign  = 1\<newline>exp   = 0x00 (0)\<newline>frac  = 0x000000 (0)\<newline>''
   \<and> \<not> occurs_in (class_label Normal)
         ''float = -0\<newline>bits  = 1 00000000 00000000000000000000000\<newline>sign  = 1\<newline>exp   = 0x00 (0)\<newline>frac  = 0x000000 (0)\<newline>''
   \<and> \<not> occurs_in (class_label SignedInfinity)
         ''float = -0\<newline>bits  = 1 00000000 00000000000000000000000\<newline>sign  = 1\<newline>exp   = 0x00 (0)\<newline>frac  = 0x000000 (0)\<newline>''
   \<and> \<not> occurs_in (class_label NaN)
         ''float = -0\<newline>bits  = 1 00000000 00000000000000000000000\<newline>sign  = 1\<newline>exp   = 0x00 (0)\<newline>frac  = 0x000000 (0)\<newline>''"
proof -
  have "\<not> occurs_in (class_label SignedZero)
         ''float = -0\<newline>bits  = 1 00000000 00000000000000000000000\<newline>sign  = 1\<newline>exp   = 0x00 (0)\<newline>frac  = 0x000000 (0)\<newline>''"
    "\<not> occurs_in (class_label Subnormal)
         ''float = -0\<newline>bits  = 1 00000000 00000000000000000000000\<newline>sign  = 1\<newline>exp   = 0x00 (0)\<newline>frac  = 0x000000 (0)\<newline>''"
    "\<not> occurs_in (class_label Normal)
         ''float = -0\<newline>bits  = 1 00000000 00000000000000000000000\<newline>sign  = 1\<newline>exp   = 0x00 (0)\<newline>frac  = 0x000000 (0)\<newline>''"
    "\<not> occurs_in (class_label SignedInfinity)
         ''float = -0\<newline>bits  = 1 00000000 00000000000000000000000\<newline>sign  = 1\<newline>exp   = 0x00 (0)\<newline>frac  = 0x000000 (0)\<newline>''"
    "\<not> occurs_in (class_label NaN)
         ''float = -0\<newline>bits  = 1 00000000 00000000000000000000000\<newline>sign  = 1\<newline>exp   = 0x00 (0)\<newline>frac  = 0x000000 (0)\<newline>''"
    by code_simp+
  then show ?thesis
    by (simp add: fields_neg_0_0f signed_zero_row decode_float_neg_0_0f emit_def
        sample_renderings_simps)
qed

text \<open>
  C9 fails for the 64-bit fraction. On \<^verbatim>\<open>0.1\<close>, which \<^verbatim>\<open>main\<close> decodes, the last line
  \<^verbatim>\<open>decode_double\<close> prints is the fraction in 13 hexadecimal digits only; its decimal
  form 2702159776422298 is nowhere in the output, while the exponent line has both forms
  and \<^verbatim>\<open>decode_float\<close> prints both forms of its fraction.
\<close>

theorem decode_double_fraction_hex_only:
  "decode_double sample_renderings lit_0_1
         \<lparr>w_stdin = [], w_stdout = []\<rparr>
     = Some \<lparr>w_stdin = [], w_stdout = ''double = 0.10000000000000001\<newline>bits   = 0 01111111011 1001100110011001100110011001100110011001100110011010\<newline>sign   = 0\<newline>exp    = 0x3FB (1019)\<newline>frac   = 0x999999999999A\<newline>''\<rparr>
   \<and> decode_double_fields lit_0_1
     = Some \<lparr>raw = 0x3FB999999999999A, sign = 0, exponent = 1019,
         fraction = 0x999999999999A\<rparr>
   \<and> fmt_u (unat (0x999999999999A :: 64 word)) = ''2702159776422298''
   \<and> \<not> occurs_in ''2702159776422298''
         ''double = 0.10000000000000001\<newline>bits   = 0 01111111011 1001100110011001100110011001100110011001100110011010\<newline>sign   = 0\<newline>exp    = 0x3FB (1019)\<newline>frac   = 0x999999999999A\<newline>''"
proof -
  have "\<not> occurs_in ''2702159776422298''
         ''double = 0.10000000000000001\<newline>bits   = 0 01111111011 1001100110011001100110011001100110011001100110011010\<newline>sign   = 0\<newline>exp    = 0x3FB (1019)\<newline>frac   = 0x999999999999A\<newline>''"
    by code_simp
  moreover have "fmt_u (unat (0x999999999999A :: 64 word)) = ''2702159776422298''"
    by (simp add: digit_char_def)
  ultimately show ?thesis
    by (simp add: fields_0_1 decode_double_0_1 emit_def sample_renderings_simps)
qed

end
